theory Spec2Isabelle
  imports Main "HOL-Library.Word" "HOL-Library.Signed_Division"
begin

unbundle bit_operations_syntax

section \<open>Machine types, errors and the byte-order helpers\<close>

type_synonym byte = "8 word"
type_synonym uint16 = "16 word"
type_synonym int64 = "64 word"

text \<open>
  The three error values of the package (\<open>ErrInvalidFrame\<close>, \<open>ErrInvalidTLV\<close> and
  \<open>io.ErrUnexpectedEOF\<close>), and \<open>Panic\<close> for a run-time panic of Go (nil pointer
  dereference, index or slice bound out of range).
\<close>

datatype error = ErrInvalidFrame | ErrInvalidTLV | ErrUnexpectedEOF | Panic

text \<open>
  \<open>binary.BigEndian.PutUint16(b, v)\<close> stores \<open>byte(v >> 8)\<close> in \<open>b[0]\<close> and
  \<open>byte(v)\<close> in \<open>b[1]\<close>; both callers pass a slice of exactly two bytes, so the model
  returns the two bytes written.
\<close>

definition PutUint16 :: "uint16 \<Rightarrow> byte list" where
  "PutUint16 v = [ucast (drop_bit 8 v), ucast v]"

text \<open>
  \<open>binary.BigEndian.Uint16(b)\<close> is \<open>uint16(b[1]) | uint16(b[0])<<8\<close>; it panics
  (\<open>None\<close>) on a slice shorter than two bytes.
\<close>

fun Uint16 :: "byte list \<Rightarrow> uint16 option" where
  "Uint16 (b0 # b1 # bs) = Some (ucast b1 OR push_bit 8 (ucast b0))"
| "Uint16 bs = None"

section \<open>TLV\<close>

type_synonym TLVType = byte

definition TLVLengthMax :: uint16 where
  "TLVLengthMax = 0x01ff"

definition TLVTypeEnd :: TLVType where
  "TLVTypeEnd = 0"

definition TLVTypeChassisID :: TLVType where
  "TLVTypeChassisID = 1"

definition TLVTypePortID :: TLVType where
  "TLVTypePortID = 2"

definition TLVTypeTTL :: TLVType where
  "TLVTypeTTL = 3"

definition TLVTypeOrganizationSpecific :: TLVType where
  "TLVTypeOrganizationSpecific = 127"

definition TLVTypeMax :: TLVType where
  "TLVTypeMax = TLVTypeOrganizationSpecific"

record TLV =
  Type :: TLVType
  Length :: uint16
  Value :: "byte list"

text \<open>The zero value \<open>new(TLV)\<close>; a nil slice is the empty list.\<close>

definition new_TLV :: TLV where
  "new_TLV = \<lparr>Type = 0, Length = 0, Value = []\<rparr>"

text \<open>
  \<open>TLV.MarshalBinary\<close>: the three checks in the source's order, then a buffer of
  \<open>2 + len(Value)\<close> bytes whose first two bytes are the header word and whose rest is
  \<open>Value\<close> (the \<open>copy\<close> fills the buffer to its end).
\<close>

definition TLV_MarshalBinary :: "TLV \<Rightarrow> error + byte list" where
  "TLV_MarshalBinary t =
     (if Type t > TLVTypeMax then Inl ErrInvalidTLV
      else if Length t > TLVLengthMax then Inl ErrInvalidTLV
      else if unat (Length t) \<noteq> length (Value t) then Inl ErrInvalidTLV
      else
        let tb = (0 :: uint16);
            tb = tb OR push_bit 9 (ucast (Type t) :: uint16);
            tb = tb OR Length t
        in Inr (PutUint16 tb @ Value t))"

text \<open>
  \<open>TLV.UnmarshalBinary\<close> writes into its receiver: \<open>Type\<close> and \<open>Length\<close> are
  assigned before the second length check, \<open>Value\<close> only after it. The result is the
  returned error (\<open>None\<close> for nil) and the receiver afterwards.
\<close>

definition TLV_UnmarshalBinary :: "TLV \<Rightarrow> byte list \<Rightarrow> error option \<times> TLV" where
  "TLV_UnmarshalBinary t b =
     (if length b < 2 then (Some ErrUnexpectedEOF, t)
      else
        case Uint16 (take 2 b) of
          None \<Rightarrow> (Some Panic, t\<lparr>Type := drop_bit 1 (b ! 0)\<rparr>)
        | Some w \<Rightarrow>
            let t = t\<lparr>Type := drop_bit 1 (b ! 0), Length := w AND TLVLengthMax\<rparr>
            in if length (drop 2 b) < unat (Length t) then (Some ErrUnexpectedEOF, t)
               else (None, t\<lparr>Value := take (unat (Length t)) (drop 2 b)\<rparr>))"

text \<open>
  The reference formulas of the specification for the header word:
  \<open>kind = word >> 9\<close> and \<open>length = word & 0x01FF\<close>.
\<close>

definition spec_kind :: "uint16 \<Rightarrow> uint16" where
  "spec_kind w = drop_bit 9 w"

definition spec_length :: "uint16 \<Rightarrow> uint16" where
  "spec_length w = w AND 0x01FF"

section \<open>ChassisID and PortID\<close>

record ChassisID =
  Subtype :: byte
  ID :: "byte list"

record PortID =
  Subtype :: byte
  ID :: "byte list"

text \<open>The zero values \<open>new(ChassisID)\<close> and \<open>new(PortID)\<close>.\<close>

definition new_ChassisID :: ChassisID where
  "new_ChassisID = \<lparr>ChassisID.Subtype = 0, ChassisID.ID = []\<rparr>"

definition new_PortID :: PortID where
  "new_PortID = \<lparr>PortID.Subtype = 0, PortID.ID = []\<rparr>"

text \<open>
  \<open>MarshalBinary\<close> of both identifiers: one subtype byte, then \<open>ID\<close>; the error is
  always nil.
\<close>

definition ChassisID_MarshalBinary :: "ChassisID \<Rightarrow> error + byte list" where
  "ChassisID_MarshalBinary c = Inr (ChassisID.Subtype c # ChassisID.ID c)"

definition PortID_MarshalBinary :: "PortID \<Rightarrow> error + byte list" where
  "PortID_MarshalBinary p = Inr (PortID.Subtype p # PortID.ID p)"

text \<open>\<open>UnmarshalBinary\<close> of both identifiers, with the receiver afterwards.\<close>

definition ChassisID_UnmarshalBinary :: "ChassisID \<Rightarrow> byte list \<Rightarrow> error option \<times> ChassisID" where
  "ChassisID_UnmarshalBinary c b =
     (if length b < 1 then (Some ErrUnexpectedEOF, c)
      else (None, c\<lparr>ChassisID.Subtype := b ! 0, ChassisID.ID := drop 1 b\<rparr>))"

definition PortID_UnmarshalBinary :: "PortID \<Rightarrow> byte list \<Rightarrow> error option \<times> PortID" where
  "PortID_UnmarshalBinary p b =
     (if length b < 1 then (Some ErrUnexpectedEOF, p)
      else (None, p\<lparr>PortID.Subtype := b ! 0, PortID.ID := drop 1 b\<rparr>))"

section \<open>Frame\<close>

text \<open>
  \<open>time.Duration\<close> is an \<open>int64\<close> count of nanoseconds. Go's \<open>/\<close> on signed
  integers truncates towards zero (\<open>sdiv\<close> on \<open>int\<close>), and \<open>>\<close> compares the signed
  values.
\<close>

definition Second :: int64 where
  "Second = 1000000000"

definition MaxUint16 :: int where
  "MaxUint16 = 65535"

definition int64_quo :: "int64 \<Rightarrow> int64 \<Rightarrow> int64" where
  "int64_quo a b = word_of_int (sint a sdiv sint b)"

text \<open>
  The pointer fields \<open>*ChassisID\<close> and \<open>*PortID\<close> and the elements of
  \<open>[]*TLV\<close> may be nil: \<open>None\<close>.
\<close>

record Frame =
  ChassisID :: "ChassisID option"
  PortID :: "PortID option"
  TTL :: int64
  Optional :: "TLV option list"

text \<open>
  \<open>Frame.length\<close>: the size of the output buffer. It dereferences both identifiers
  and every optional TLV, so a nil pointer is a panic.
\<close>

fun Optional_length :: "TLV option list \<Rightarrow> nat \<Rightarrow> error + nat" where
  "Optional_length [] n = Inr n"
| "Optional_length (None # ts) n = Inl Panic"
| "Optional_length (Some t # ts) n = Optional_length ts (n + (2 + length (Value t)))"

definition Frame_length :: "Frame \<Rightarrow> error + nat" where
  "Frame_length f =
     (case ChassisID f of None \<Rightarrow> Inl Panic | Some c \<Rightarrow>
      case PortID f of None \<Rightarrow> Inl Panic | Some p \<Rightarrow>
      case Optional_length (Optional f)
             (2 + 1 + length (ChassisID.ID c) + (2 + 1 + length (PortID.ID p)) + (2 + 2)) of
        Inl e \<Rightarrow> Inl e
      | Inr n \<Rightarrow> Inr (n + 2))"

text \<open>
  \<open>copy(b[n:n+len(src)], src)\<close>: the slice expression panics when its upper bound
  exceeds the buffer; otherwise the bytes of \<open>src\<close> replace those at offset \<open>n\<close>.
\<close>

definition copy_at :: "byte list \<Rightarrow> nat \<Rightarrow> byte list \<Rightarrow> error + byte list" where
  "copy_at b n src =
     (if n + length src > length b then Inl Panic
      else Inr (take n b @ src @ drop (n + length src) b))"

text \<open>
  Go's \<open>x, err := g(); if err != nil { return nil, err }\<close>: the error is passed
  on, a result is handed to the rest of the function.
\<close>

definition err_bind :: "error + 'a \<Rightarrow> ('a \<Rightarrow> error + 'b) \<Rightarrow> error + 'b" where
  "err_bind r k = (case r of Inl e \<Rightarrow> Inl e | Inr v \<Rightarrow> k v)"

text \<open>The loop over \<open>f.Optional\<close>, threading the buffer and the offset.\<close>

fun marshal_optional :: "TLV option list \<Rightarrow> byte list \<Rightarrow> nat \<Rightarrow> error + byte list \<times> nat" where
  "marshal_optional [] b n = Inr (b, n)"
| "marshal_optional (None # ts) b n = Inl Panic"
| "marshal_optional (Some t # ts) b n =
     err_bind (TLV_MarshalBinary t) (\<lambda>tb.
     err_bind (copy_at b n tb) (\<lambda>b.
     marshal_optional ts b (n + length tb)))"

text \<open>
  \<open>Frame.MarshalBinary\<close>. The buffer is allocated zeroed at its final size and the
  encoded TLVs are copied into it one after the other; its last two bytes are never
  written.
\<close>

definition Frame_MarshalBinary :: "Frame \<Rightarrow> error + byte list" where
  "Frame_MarshalBinary f =
     (case ChassisID f of None \<Rightarrow> Inl ErrInvalidFrame | Some c \<Rightarrow>
      case PortID f of None \<Rightarrow> Inl ErrInvalidFrame | Some p \<Rightarrow>
      let tTTL = int64_quo (TTL f) Second in
      if sint tTTL > MaxUint16 then Inl ErrInvalidFrame
      else
        let ttl = (ucast tTTL :: uint16) in
        err_bind (Frame_length f) (\<lambda>len.
        let b = replicate len (0 :: byte) in
        err_bind (ChassisID_MarshalBinary c) (\<lambda>cb.
        err_bind (TLV_MarshalBinary
            \<lparr>Type = TLVTypeChassisID, Length = of_nat (length cb), Value = cb\<rparr>) (\<lambda>cbb.
        let n = length cbb in
        err_bind (copy_at b 0 cbb) (\<lambda>b.
        err_bind (PortID_MarshalBinary p) (\<lambda>pb.
        err_bind (TLV_MarshalBinary
            \<lparr>Type = TLVTypePortID, Length = of_nat (length pb), Value = pb\<rparr>) (\<lambda>pbb.
        err_bind (copy_at b n pbb) (\<lambda>b.
        let n = n + length pbb in
        err_bind (TLV_MarshalBinary
            \<lparr>Type = TLVTypeTTL, Length = 2, Value = PutUint16 ttl\<rparr>) (\<lambda>tbb.
        err_bind (copy_at b n tbb) (\<lambda>b.
        let n = n + length tbb in
        err_bind (marshal_optional (Optional f) b n) (\<lambda>(b, n).
        Inr b)))))))))))"

text \<open>
  The loop of \<open>Frame.UnmarshalBinary\<close>: one TLV is decoded from \<open>b[l:]\<close> into a fresh
  \<open>TLV\<close> as long as bytes remain. The slice expression \<open>b[l:]\<close> panics when \<open>l\<close>
  exceeds the length of \<open>b\<close>.
\<close>

function unmarshal_loop :: "byte list \<Rightarrow> nat \<Rightarrow> TLV list \<Rightarrow> error + TLV list" where
  "unmarshal_loop b l tt =
     (if l > length b then Inl Panic
      else if length (drop l b) > 0 then
        (case TLV_UnmarshalBinary new_TLV (drop l b) of
           (Some e, t) \<Rightarrow> Inl e
         | (None, t) \<Rightarrow> unmarshal_loop b (l + (2 + unat (Length t))) (tt @ [t]))
      else Inr tt)"
  by pat_completeness auto
termination
  by (relation "measure (\<lambda>(b, l, tt). length b - l)") auto

text \<open>
  \<open>Frame.UnmarshalBinary\<close> writes into its receiver field by field, between the
  positional checks. The result is the returned error (\<open>None\<close> for nil) and the
  receiver afterwards.
\<close>

definition Frame_UnmarshalBinary :: "Frame \<Rightarrow> byte list \<Rightarrow> error option \<times> Frame" where
  "Frame_UnmarshalBinary f b =
     (case unmarshal_loop b 0 [] of Inl e \<Rightarrow> (Some e, f) | Inr tt \<Rightarrow>
      if length tt < 4 then (Some ErrUnexpectedEOF, f)
      else if Type (tt ! 0) \<noteq> TLVTypeChassisID then (Some ErrInvalidFrame, f)
      else
        let (err, c) = ChassisID_UnmarshalBinary new_ChassisID (Value (tt ! 0));
            f = f\<lparr>ChassisID := Some c\<rparr>
        in
        if err \<noteq> None then (err, f)
        else if Type (tt ! 1) \<noteq> TLVTypePortID then (Some ErrInvalidFrame, f)
        else
          let (err, p) = PortID_UnmarshalBinary new_PortID (Value (tt ! 1));
              f = f\<lparr>PortID := Some p\<rparr>
          in
          if err \<noteq> None then (err, f)
          else if Type (tt ! 2) \<noteq> TLVTypeTTL \<or> Length (tt ! 2) \<noteq> 2
          then (Some ErrInvalidFrame, f)
          else
            case Uint16 (Value (tt ! 2)) of None \<Rightarrow> (Some Panic, f) | Some w \<Rightarrow>
            let f = f\<lparr>TTL := ucast w * Second\<rparr> in
            if Type (tt ! (length tt - 1)) \<noteq> TLVTypeEnd \<or> Length (tt ! (length tt - 1)) \<noteq> 0
            then (Some ErrInvalidFrame, f)
            else (None, f\<lparr>Optional := map Some (drop 3 (take (length tt - 1) tt))\<rparr>))"

text \<open>The zero value \<open>new(Frame)\<close>: nil pointers, zero TTL, nil slice.\<close>

definition new_Frame :: Frame where
  "new_Frame = \<lparr>ChassisID = None, PortID = None, TTL = 0, Optional = []\<rparr>"

text \<open>
  The frame and the bytes of the case ``OK Frame, two optional TLVs'' of
  \<open>TestFrameUnmarshalBinary\<close>: chassis \<open>eth0\<close> (subtype 6), port \<open>eth1\<close> (subtype 4),
  a TTL of 255 seconds and two optional TLVs.
\<close>

definition eth_Frame :: Frame where
  "eth_Frame =
     \<lparr>ChassisID = Some \<lparr>ChassisID.Subtype = 6, ChassisID.ID = [0x65, 0x74, 0x68, 0x30]\<rparr>,
      PortID = Some \<lparr>PortID.Subtype = 4, PortID.ID = [0x65, 0x74, 0x68, 0x31]\<rparr>,
      TTL = 255 * Second,
      Optional = [Some \<lparr>Type = 4, Length = 1, Value = [1]\<rparr>,
                  Some \<lparr>Type = 5, Length = 2, Value = [1, 2]\<rparr>]\<rparr>"

definition eth_bytes :: "byte list" where
  "eth_bytes =
     [0x02, 0x05, 6, 0x65, 0x74, 0x68, 0x30,
      0x04, 0x05, 4, 0x65, 0x74, 0x68, 0x31,
      0x06, 0x02, 0x00, 0xff,
      0x08, 0x01, 1,
      0x0a, 0x02, 1, 2,
      0x00, 0x00]"

declare unmarshal_loop.simps [simp del]


section \<open>Properties of the TLV codec\<close>

subsection \<open>Header arithmetic\<close>

lemma Uint16_PutUint16: "Uint16 (PutUint16 w @ bs) = Some w"
  unfolding PutUint16_def
  apply simp
  apply (rule bit_word_eqI)
  apply (auto simp: bit_simps)
  done

lemma le_127_bit: "bit ty n \<Longrightarrow> ty \<le> 127 \<Longrightarrow> n < 7" for ty :: byte
proof -
  assume b: "bit ty n" and le: "ty \<le> 127"
  from le have "ty < 2 ^ 7" by (simp add: word_less_nat_alt word_le_nat_alt)
  then have "ty AND mask 7 = ty" by (rule less_mask_eq)
  then have "take_bit 7 ty = ty" by (simp add: take_bit_eq_mask)
  then have "bit (take_bit 7 ty) n" using b by simp
  then show ?thesis by (simp add: bit_take_bit_iff)
qed

lemma le_511_bit: "bit len n \<Longrightarrow> len \<le> 511 \<Longrightarrow> n < 9" for len :: uint16
proof -
  assume b: "bit len n" and le: "len \<le> 511"
  from le have "len < 2 ^ 9" by (simp add: word_less_nat_alt word_le_nat_alt)
  then have "len AND mask 9 = len" by (rule less_mask_eq)
  then have "take_bit 9 len = len" by (simp add: take_bit_eq_mask)
  then have "bit (take_bit 9 len) n" using b by simp
  then show ?thesis by (simp add: bit_take_bit_iff)
qed

lemma and_511: "w AND 511 = take_bit 9 w" for w :: uint16
  by (simp add: take_bit_eq_mask mask_eq_exp_minus_1)

lemma header_kind: "ty \<le> 127 \<Longrightarrow> len \<le> 511 \<Longrightarrow>
    drop_bit 9 (push_bit 9 (ucast ty) OR len) = (ucast ty :: uint16)"
  for ty :: byte and len :: uint16
  apply (rule bit_word_eqI)
  apply (auto simp: bit_simps dest: le_511_bit le_127_bit bit_imp_le_length)
  done

lemma header_length: "ty \<le> 127 \<Longrightarrow> len \<le> 511 \<Longrightarrow>
    (push_bit 9 (ucast ty) OR len) AND 511 = len"
  for ty :: byte and len :: uint16
  unfolding and_511
  apply (rule bit_word_eqI)
  apply (auto simp: bit_simps dest: le_511_bit le_127_bit bit_imp_le_length)
  done

lemma header_byte0: "ty \<le> 127 \<Longrightarrow> len \<le> 511 \<Longrightarrow>
    drop_bit 1 (ucast (drop_bit 8 (push_bit 9 (ucast ty :: uint16) OR len)) :: byte) = ty"
  for ty :: byte and len :: uint16
  apply (rule bit_word_eqI)
  apply (auto simp: bit_simps dest: le_511_bit le_127_bit bit_imp_le_length)
  done

lemma kind_of_word: "(drop_bit 1 b0 :: byte) = ucast (drop_bit 9 (ucast b1 OR push_bit 8 (ucast b0)) :: uint16)"
  for b0 b1 :: byte
  apply (rule bit_word_eqI)
  apply (auto simp: bit_simps dest: bit_imp_le_length)
  done

lemma TLV_UnmarshalBinary_Cons:
  assumes "w = ucast b1 OR push_bit 8 (ucast b0)"
  shows "TLV_UnmarshalBinary t0 (b0 # b1 # rest) =
     (if length rest < unat (w AND 0x01FF)
      then (Some ErrUnexpectedEOF, t0\<lparr>Type := drop_bit 1 b0, Length := w AND 0x01FF\<rparr>)
      else (None, \<lparr>Type = drop_bit 1 b0, Length = w AND 0x01FF,
                   Value = take (unat (w AND 0x01FF)) rest\<rparr>))"
  unfolding assms
  by (cases t0) (simp add: TLV_UnmarshalBinary_def TLVLengthMax_def Let_def)

lemma TLV_MarshalBinary_Inr:
  assumes "TLV_MarshalBinary t = Inr b"
  shows "Type t \<le> 127" and "Length t \<le> 511" and "unat (Length t) = length (Value t)"
    and "b = PutUint16 (push_bit 9 (ucast (Type t)) OR Length t) @ Value t"
  using assms
  by (auto simp: TLV_MarshalBinary_def TLVTypeMax_def TLVTypeOrganizationSpecific_def
      TLVLengthMax_def Let_def not_less split: if_splits)

lemma TLV_UnmarshalBinary_MarshalBinary:
  assumes "TLV_MarshalBinary t = Inr b"
  shows "TLV_UnmarshalBinary t0 (b @ rest) = (None, t)"
proof -
  note m = TLV_MarshalBinary_Inr [OF assms]
  define w :: uint16 where "w = push_bit 9 (ucast (Type t)) OR Length t"
  have w1: "w = ucast (ucast w :: byte) OR push_bit 8 (ucast (ucast (drop_bit 8 w) :: byte))"
    by (rule bit_word_eqI) (auto simp: bit_simps)
  have w2: "w AND 0x01FF = Length t"
    unfolding w_def using m(1,2) by (rule header_length)
  have w3: "drop_bit 1 (ucast (drop_bit 8 w) :: byte) = Type t"
    unfolding w_def using m(1,2) by (rule header_byte0)
  have b: "b @ rest = ucast (drop_bit 8 w) # ucast w # (Value t @ rest)"
    by (simp add: m(4) PutUint16_def w_def)
  show ?thesis
    unfolding b TLV_UnmarshalBinary_Cons [OF w1] w2 w3
    by (simp add: m(3))
qed


subsection \<open>Encoding one TLV\<close>

text \<open>
  Claim C2. \<open>TLV.MarshalBinary\<close> returns \<open>ErrInvalidTLV\<close> exactly when \<open>Type\<close> is
  above 127, \<open>Length\<close> is above 511 or \<open>Length\<close> is not the number of bytes of
  \<open>Value\<close>. Otherwise it returns \<open>2 + Length\<close> bytes: the two bytes of a big-endian
  16-bit word \<open>w\<close> whose top seven bits are \<open>Type\<close> and whose low nine bits are
  \<open>Length\<close>, then \<open>Value\<close> unchanged.
\<close>

theorem TLV_MarshalBinary_correct:
  "(TLV_MarshalBinary t = Inl ErrInvalidTLV \<longleftrightarrow>
      (Type t > 127 \<or> Length t > 511 \<or> unat (Length t) \<noteq> length (Value t))) \<and>
   (\<not> (Type t > 127 \<or> Length t > 511 \<or> unat (Length t) \<noteq> length (Value t)) \<longrightarrow>
      (\<exists>w :: uint16. TLV_MarshalBinary t = Inr (ucast (drop_bit 8 w) # ucast w # Value t) \<and>
         length (ucast (drop_bit 8 w) # ucast w # Value t) = 2 + unat (Length t) \<and>
         drop_bit 9 w = ucast (Type t) \<and> w AND 0x01FF = Length t))"
proof (intro conjI impI)
  show "TLV_MarshalBinary t = Inl ErrInvalidTLV \<longleftrightarrow>
      (Type t > 127 \<or> Length t > 511 \<or> unat (Length t) \<noteq> length (Value t))"
    by (simp add: TLV_MarshalBinary_def TLVTypeMax_def TLVTypeOrganizationSpecific_def
        TLVLengthMax_def Let_def)
next
  assume ok: "\<not> (Type t > 127 \<or> Length t > 511 \<or> unat (Length t) \<noteq> length (Value t))"
  then have ty: "Type t \<le> 127" and len: "Length t \<le> 511"
    and lv: "unat (Length t) = length (Value t)"
    by (simp_all add: not_less)
  let ?w = "push_bit 9 (ucast (Type t)) OR Length t :: uint16"
  have "TLV_MarshalBinary t = Inr (ucast (drop_bit 8 ?w) # ucast ?w # Value t)"
    using ok
    by (simp add: TLV_MarshalBinary_def TLVTypeMax_def TLVTypeOrganizationSpecific_def
        TLVLengthMax_def Let_def PutUint16_def)
  moreover have "length (ucast (drop_bit 8 ?w) # ucast ?w # Value t) = 2 + unat (Length t)"
    using lv by simp
  moreover have "drop_bit 9 ?w = ucast (Type t)"
    using ty len by (rule header_kind)
  moreover have "?w AND 0x01FF = Length t"
    using ty len by (rule header_length)
  ultimately show "\<exists>w :: uint16. TLV_MarshalBinary t = Inr (ucast (drop_bit 8 w) # ucast w # Value t) \<and>
         length (ucast (drop_bit 8 w) # ucast w # Value t) = 2 + unat (Length t) \<and>
         drop_bit 9 w = ucast (Type t) \<and> w AND 0x01FF = Length t"
    by blast
qed

theorem TLV_MarshalBinary_correct_witness:
  "\<not> (Type \<lparr>Type = 4, Length = 2, Value = [1, 2]\<rparr> > 127 \<or>
      Length \<lparr>Type = 4, Length = 2, Value = [1, 2]\<rparr> > 511 \<or>
      unat (Length \<lparr>Type = 4, Length = 2, Value = [1, 2]\<rparr>) \<noteq>
        length (Value \<lparr>Type = 4, Length = 2, Value = [1, 2]\<rparr>)) \<and>
   TLV_MarshalBinary \<lparr>Type = 4, Length = 2, Value = [1, 2]\<rparr> \<noteq> Inl ErrInvalidTLV \<and>
   (\<exists>w :: uint16.
      TLV_MarshalBinary \<lparr>Type = 4, Length = 2, Value = [1, 2]\<rparr> =
        Inr (ucast (drop_bit 8 w) # ucast w # [1, 2]) \<and>
      drop_bit 9 w = 4 \<and> w AND 0x01FF = 2)"
  using TLV_MarshalBinary_correct [of "\<lparr>Type = 4, Length = 2, Value = [1, 2]\<rparr>"]
  by simp

subsection \<open>Decoding one TLV\<close>

text \<open>
  Claim C3. \<open>TLV.UnmarshalBinary\<close> returns \<open>io.ErrUnexpectedEOF\<close> exactly when the
  input has fewer than two bytes, or fewer bytes after the first two than the low nine
  bits of the big-endian header word say. In every other case it succeeds: \<open>Type\<close> is
  the high seven bits and \<open>Length\<close> the low nine bits of the header word, \<open>Value\<close>
  is the next \<open>Length\<close> bytes. No value of \<open>Type\<close> or \<open>Length\<close> makes it fail.
\<close>

theorem TLV_UnmarshalBinary_correct:
  "(fst (TLV_UnmarshalBinary t0 b) = Some ErrUnexpectedEOF \<longleftrightarrow>
      (length b < 2 \<or>
       length b - 2 < unat ((push_bit 8 (ucast (b ! 0)) OR ucast (b ! 1) :: uint16) AND 0x01FF))) \<and>
   (\<not> (length b < 2 \<or>
       length b - 2 < unat ((push_bit 8 (ucast (b ! 0)) OR ucast (b ! 1) :: uint16) AND 0x01FF)) \<longrightarrow>
      TLV_UnmarshalBinary t0 b =
        (None, \<lparr>Type = ucast (drop_bit 9 (push_bit 8 (ucast (b ! 0)) OR ucast (b ! 1) :: uint16)),
                Length = (push_bit 8 (ucast (b ! 0)) OR ucast (b ! 1)) AND 0x01FF,
                Value = take (unat ((push_bit 8 (ucast (b ! 0)) OR ucast (b ! 1) :: uint16) AND 0x01FF))
                          (drop 2 b)\<rparr>))"
proof (cases b)
  case Nil
  then show ?thesis by (simp add: TLV_UnmarshalBinary_def)
next
  case (Cons b0 bs)
  show ?thesis
  proof (cases bs)
    case Nil
    with Cons show ?thesis by (simp add: TLV_UnmarshalBinary_def)
  next
    case (Cons b1 rest)
    with \<open>b = b0 # bs\<close> have b: "b = b0 # b1 # rest" by simp
    define w :: uint16 where "w = push_bit 8 (ucast b0) OR ucast b1"
    have w': "w = ucast b1 OR push_bit 8 (ucast b0)"
      by (simp add: w_def or.commute)
    have k: "drop_bit 1 b0 = ucast (drop_bit 9 w)"
      unfolding w' by (rule kind_of_word)
    have w: "push_bit 8 (ucast (b ! 0)) OR ucast (b ! 1) = w"
      by (simp add: b w_def)
    have l: "length b - 2 = length rest" "drop 2 b = rest" "\<not> length b < 2"
      by (simp_all add: b)
    have u: "TLV_UnmarshalBinary t0 b =
       (if length rest < unat (w AND 0x01FF)
        then (Some ErrUnexpectedEOF, t0\<lparr>Type := drop_bit 1 b0, Length := w AND 0x01FF\<rparr>)
        else (None, \<lparr>Type = ucast (drop_bit 9 w), Length = w AND 0x01FF,
                     Value = take (unat (w AND 0x01FF)) rest\<rparr>))"
      unfolding b k [symmetric] using w' by (rule TLV_UnmarshalBinary_Cons)
    show ?thesis
      unfolding w l(1,2) u using l(3) by simp
  qed
qed

theorem TLV_UnmarshalBinary_correct_witness:
  "\<not> (length [8, 2, 1, 2 :: byte] < 2 \<or>
      length [8, 2, 1, 2 :: byte] - 2 <
        unat ((push_bit 8 (ucast ([8, 2, 1, 2 :: byte] ! 0)) OR
               ucast ([8, 2, 1, 2 :: byte] ! 1) :: uint16) AND 0x01FF)) \<and>
   TLV_UnmarshalBinary new_TLV [8, 2, 1, 2] = (None, \<lparr>Type = 4, Length = 2, Value = [1, 2]\<rparr>)"
  using TLV_UnmarshalBinary_correct [of new_TLV "[8, 2, 1, 2]"]
  by simp

subsection \<open>Round trip of one TLV\<close>

text \<open>
  Claim C5. A TLV with \<open>Type\<close> at most 127, \<open>Length\<close> at most 511 and \<open>Length\<close>
  equal to the number of bytes of \<open>Value\<close> is encoded without error, and decoding the
  bytes into any receiver gives the same TLV back.
\<close>

theorem TLV_roundtrip:
  "Type t \<le> 127 \<and> Length t \<le> 511 \<and> unat (Length t) = length (Value t) \<Longrightarrow>
   \<exists>b. TLV_MarshalBinary t = Inr b \<and> TLV_UnmarshalBinary t0 b = (None, t)"
proof -
  assume ok: "Type t \<le> 127 \<and> Length t \<le> 511 \<and> unat (Length t) = length (Value t)"
  then obtain b where b: "TLV_MarshalBinary t = Inr b"
    by (simp add: TLV_MarshalBinary_def TLVTypeMax_def TLVTypeOrganizationSpecific_def
        TLVLengthMax_def Let_def not_less[symmetric])
  from TLV_UnmarshalBinary_MarshalBinary [OF b, of t0 "[]"]
  have "TLV_UnmarshalBinary t0 b = (None, t)" by simp
  with b show ?thesis by blast
qed

theorem TLV_roundtrip_witness:
  "Type \<lparr>Type = 4, Length = 2, Value = [1, 2]\<rparr> \<le> 127 \<and>
   Length \<lparr>Type = 4, Length = 2, Value = [1, 2]\<rparr> \<le> 511 \<and>
   unat (Length \<lparr>Type = 4, Length = 2, Value = [1, 2]\<rparr>) = length (Value \<lparr>Type = 4, Length = 2, Value = [1, 2]\<rparr>) \<and>
   (\<exists>b. TLV_MarshalBinary \<lparr>Type = 4, Length = 2, Value = [1, 2]\<rparr> = Inr b \<and>
      TLV_UnmarshalBinary new_TLV b = (None, \<lparr>Type = 4, Length = 2, Value = [1, 2]\<rparr>))"
  using TLV_roundtrip [of "\<lparr>Type = 4, Length = 2, Value = [1, 2]\<rparr>" new_TLV]
  by simp


subsection \<open>The header extraction against the reference formulas\<close>

text \<open>
  Claim C8. For every two header bytes, whatever follows them, the receiver of
  \<open>TLV.UnmarshalBinary\<close> ends with \<open>Type\<close> (the first byte shifted right by one) equal
  to the reference \<open>word >> 9\<close> and \<open>Length\<close> (the word masked with \<open>0x01FF\<close>) equal
  to the reference \<open>word & 0x01FF\<close>, where \<open>word\<close> is the big-endian 16-bit word of
  the two bytes.
\<close>

theorem header_extraction_refines_spec:
  "\<exists>w. Uint16 (b0 # b1 # rest) = Some w \<and>
       w = push_bit 8 (ucast b0) OR ucast b1 \<and>
       ucast (Type (snd (TLV_UnmarshalBinary t0 (b0 # b1 # rest)))) = spec_kind w \<and>
       Length (snd (TLV_UnmarshalBinary t0 (b0 # b1 # rest))) = spec_length w"
proof -
  define w :: uint16 where "w = ucast b1 OR push_bit 8 (ucast b0)"
  have k: "ucast (drop_bit 1 b0) = drop_bit 9 w"
    unfolding w_def
    by (rule bit_word_eqI) (auto simp: bit_simps dest: bit_imp_le_length)
  have "Uint16 (b0 # b1 # rest) = Some w"
    by (simp add: w_def)
  moreover have "w = push_bit 8 (ucast b0) OR ucast b1"
    by (simp add: w_def or.commute)
  moreover have "ucast (Type (snd (TLV_UnmarshalBinary t0 (b0 # b1 # rest)))) = spec_kind w"
    unfolding TLV_UnmarshalBinary_Cons [OF w_def] spec_kind_def k [symmetric] by simp
  moreover have "Length (snd (TLV_UnmarshalBinary t0 (b0 # b1 # rest))) = spec_length w"
    unfolding TLV_UnmarshalBinary_Cons [OF w_def] spec_length_def by simp
  ultimately show ?thesis by blast
qed

section \<open>Properties of the Frame codec\<close>

subsection \<open>The output buffer of the encoder\<close>

text \<open>
  While \<open>Frame.MarshalBinary\<close> runs, the buffer is always the bytes written so far
  followed by zeros; the lemmas below follow the copies one by one and end with the
  layout of the result: the three mandatory TLVs, the optional ones in order, and two
  zero bytes that were never written.
\<close>

lemma err_bind_Inr: "err_bind r k = Inr y \<longleftrightarrow> (\<exists>v. r = Inr v \<and> k v = Inr y)"
  by (cases r) (simp_all add: err_bind_def)

lemma copy_at_zeros:
  "copy_at (pre @ replicate k 0) (length pre) src = Inr b' \<longleftrightarrow>
     length src \<le> k \<and> b' = (pre @ src) @ replicate (k - length src) 0"
  by (auto simp: copy_at_def)

lemma TLV_MarshalBinary_length:
  "TLV_MarshalBinary t = Inr b \<Longrightarrow> length b = 2 + length (Value t)"
  using TLV_MarshalBinary_Inr(4) [of t b] by (simp add: PutUint16_def)


lemma marshal_optional_zeros:
  "marshal_optional ts (pre @ replicate k 0) (length pre) = Inr (b', n') \<Longrightarrow>
   \<exists>us bs. ts = map Some us \<and> map TLV_MarshalBinary us = map Inr bs \<and>
     length (concat bs) \<le> k \<and>
     b' = pre @ concat bs @ replicate (k - length (concat bs)) 0 \<and>
     n' = length pre + length (concat bs)"
proof (induction ts arbitrary: pre k)
  case Nil
  then show ?case
    by (intro exI [of _ "[]"]) simp
next
  case (Cons t ts)
  show ?case
  proof (cases t)
    case None
    with Cons.prems show ?thesis by simp
  next
    case (Some u)
    from Cons.prems have "err_bind (TLV_MarshalBinary u) (\<lambda>tb.
       err_bind (copy_at (pre @ replicate k 0) (length pre) tb) (\<lambda>b.
       marshal_optional ts b (length pre + length tb))) = Inr (b', n')"
      unfolding Some by simp
    then obtain tb b1 where
      tb: "TLV_MarshalBinary u = Inr tb"
      and b1: "copy_at (pre @ replicate k 0) (length pre) tb = Inr b1"
      and rest: "marshal_optional ts b1 (length pre + length tb) = Inr (b', n')"
      unfolding err_bind_Inr by (elim exE conjE)
    from b1 have le: "length tb \<le> k"
      and b1': "b1 = (pre @ tb) @ replicate (k - length tb) 0"
      by (simp_all add: copy_at_zeros)
    from rest have "marshal_optional ts ((pre @ tb) @ replicate (k - length tb) 0)
        (length (pre @ tb)) = Inr (b', n')"
      by (simp add: b1')
    from Cons.IH [OF this] obtain us bs where
      ih: "ts = map Some us" "map TLV_MarshalBinary us = map Inr bs"
        "length (concat bs) \<le> k - length tb"
        "b' = (pre @ tb) @ concat bs @ replicate (k - length tb - length (concat bs)) 0"
        "n' = length (pre @ tb) + length (concat bs)"
      by (elim exE conjE)
    have 1: "t # ts = map Some (u # us)"
      by (simp add: Some ih(1))
    have 2: "map TLV_MarshalBinary (u # us) = map Inr (tb # bs)"
      by (simp add: tb ih(2))
    have 3: "length (concat (tb # bs)) \<le> k"
      using le ih(3) by simp
    have 4: "b' = pre @ concat (tb # bs) @ replicate (k - length (concat (tb # bs))) 0"
      by (simp add: ih(4))
    have 5: "n' = length pre + length (concat (tb # bs))"
      by (simp add: ih(5))
    show ?thesis
      by (rule exI [of _ "u # us"], rule exI [of _ "tb # bs"]) (intro conjI 1 2 3 4 5)
  qed
qed

lemma Optional_length_Some:
  "map TLV_MarshalBinary us = map Inr bs \<Longrightarrow>
   Optional_length (map Some us) n = Inr (n + length (concat bs))"
proof (induction us arbitrary: bs n)
  case Nil
  then show ?case by simp
next
  case (Cons u us)
  then obtain tb bs' where bs: "bs = tb # bs'" and tb: "TLV_MarshalBinary u = Inr tb"
    and rest: "map TLV_MarshalBinary us = map Inr bs'"
    by (cases bs) auto
  show ?case
    using Cons.IH [OF rest] TLV_MarshalBinary_length [OF tb]
    by (simp add: bs)
qed

lemma Frame_MarshalBinary_Some:
  assumes "Frame_MarshalBinary f = Inr b"
  obtains c p where "ChassisID f = Some c" and "PortID f = Some p"
    and "\<not> sint (int64_quo (TTL f) Second) > MaxUint16"
  using assms
  by (cases "ChassisID f"; cases "PortID f")
     (simp_all add: Frame_MarshalBinary_def Let_def split: if_splits)

lemma Frame_MarshalBinary_steps:
  assumes "Frame_MarshalBinary f = Inr b"
    and c: "ChassisID f = Some c" and p: "PortID f = Some p"
  obtains len cbb b1 pbb b2 tbb b3 n where
    "Frame_length f = Inr len"
    "TLV_MarshalBinary \<lparr>Type = TLVTypeChassisID,
       Length = of_nat (length (ChassisID.Subtype c # ChassisID.ID c)),
       Value = ChassisID.Subtype c # ChassisID.ID c\<rparr> = Inr cbb"
    "copy_at (replicate len 0) 0 cbb = Inr b1"
    "TLV_MarshalBinary \<lparr>Type = TLVTypePortID,
       Length = of_nat (length (PortID.Subtype p # PortID.ID p)),
       Value = PortID.Subtype p # PortID.ID p\<rparr> = Inr pbb"
    "copy_at b1 (length cbb) pbb = Inr b2"
    "TLV_MarshalBinary \<lparr>Type = TLVTypeTTL, Length = 2,
       Value = PutUint16 (ucast (int64_quo (TTL f) Second))\<rparr> = Inr tbb"
    "copy_at b2 (length cbb + length pbb) tbb = Inr b3"
    "marshal_optional (Optional f) b3 (length cbb + length pbb + length tbb) = Inr (b, n)"
proof -
  from Frame_MarshalBinary_Some [OF assms(1)] c p
  have ttl: "\<not> sint (int64_quo (TTL f) Second) > MaxUint16"
    by auto
  from assms(1) have "\<exists>len. Frame_length f = Inr len \<and>
    (\<exists>cbb. TLV_MarshalBinary \<lparr>Type = TLVTypeChassisID,
       Length = of_nat (length (ChassisID.Subtype c # ChassisID.ID c)),
       Value = ChassisID.Subtype c # ChassisID.ID c\<rparr> = Inr cbb \<and>
    (\<exists>b1. copy_at (replicate len 0) 0 cbb = Inr b1 \<and>
    (\<exists>pbb. TLV_MarshalBinary \<lparr>Type = TLVTypePortID,
       Length = of_nat (length (PortID.Subtype p # PortID.ID p)),
       Value = PortID.Subtype p # PortID.ID p\<rparr> = Inr pbb \<and>
    (\<exists>b2. copy_at b1 (length cbb) pbb = Inr b2 \<and>
    (\<exists>tbb. TLV_MarshalBinary \<lparr>Type = TLVTypeTTL, Length = 2,
       Value = PutUint16 (ucast (int64_quo (TTL f) Second))\<rparr> = Inr tbb \<and>
    (\<exists>b3. copy_at b2 (length cbb + length pbb) tbb = Inr b3 \<and>
    (\<exists>n. marshal_optional (Optional f) b3 (length cbb + length pbb + length tbb) = Inr (b, n))))))))"
    using ttl
    by (simp add: Frame_MarshalBinary_def c p Let_def err_bind_Inr
        ChassisID_MarshalBinary_def PortID_MarshalBinary_def)
  then show thesis
    by (elim exE conjE) (rule that)
qed

lemma Frame_length_Inr:
  assumes "Frame_length f = Inr len"
    and "ChassisID f = Some c" and "PortID f = Some p"
  shows "\<exists>n. Optional_length (Optional f)
            (2 + 1 + length (ChassisID.ID c) + (2 + 1 + length (PortID.ID p)) + (2 + 2)) = Inr n \<and>
          len = n + 2"
  using assms by (auto simp: Frame_length_def split: sum.splits)

lemma Frame_MarshalBinary_layout:
  assumes enc: "Frame_MarshalBinary f = Inr b"
    and c: "ChassisID f = Some c" and p: "PortID f = Some p"
  obtains us bs cbb pbb tbb where
    "Optional f = map Some us"
    "map TLV_MarshalBinary us = map Inr bs"
    "TLV_MarshalBinary \<lparr>Type = TLVTypeChassisID,
       Length = of_nat (length (ChassisID.Subtype c # ChassisID.ID c)),
       Value = ChassisID.Subtype c # ChassisID.ID c\<rparr> = Inr cbb"
    "TLV_MarshalBinary \<lparr>Type = TLVTypePortID,
       Length = of_nat (length (PortID.Subtype p # PortID.ID p)),
       Value = PortID.Subtype p # PortID.ID p\<rparr> = Inr pbb"
    "TLV_MarshalBinary \<lparr>Type = TLVTypeTTL, Length = 2,
       Value = PutUint16 (ucast (int64_quo (TTL f) Second))\<rparr> = Inr tbb"
    "b = cbb @ pbb @ tbb @ concat bs @ [0, 0]"
proof -
  from Frame_MarshalBinary_steps [OF enc c p]
  obtain len cbb b1 pbb b2 tbb b3 n where
    len: "Frame_length f = Inr len"
    and cbb: "TLV_MarshalBinary \<lparr>Type = TLVTypeChassisID,
       Length = of_nat (length (ChassisID.Subtype c # ChassisID.ID c)),
       Value = ChassisID.Subtype c # ChassisID.ID c\<rparr> = Inr cbb"
    and b1: "copy_at (replicate len 0) 0 cbb = Inr b1"
    and pbb: "TLV_MarshalBinary \<lparr>Type = TLVTypePortID,
       Length = of_nat (length (PortID.Subtype p # PortID.ID p)),
       Value = PortID.Subtype p # PortID.ID p\<rparr> = Inr pbb"
    and b2: "copy_at b1 (length cbb) pbb = Inr b2"
    and tbb: "TLV_MarshalBinary \<lparr>Type = TLVTypeTTL, Length = 2,
       Value = PutUint16 (ucast (int64_quo (TTL f) Second))\<rparr> = Inr tbb"
    and b3: "copy_at b2 (length cbb + length pbb) tbb = Inr b3"
    and opt: "marshal_optional (Optional f) b3 (length cbb + length pbb + length tbb) = Inr (b, n)"
    by this
  have lc: "length cbb = 2 + 1 + length (ChassisID.ID c)"
    using TLV_MarshalBinary_length [OF cbb] by simp
  have lp: "length pbb = 2 + 1 + length (PortID.ID p)"
    using TLV_MarshalBinary_length [OF pbb] by simp
  have lt: "length tbb = 2 + 2"
    using TLV_MarshalBinary_length [OF tbb] by (simp add: PutUint16_def)
  from b1 have "copy_at ([] @ replicate len 0) (length ([] :: byte list)) cbb = Inr b1"
    by simp
  then have b1': "b1 = cbb @ replicate (len - length cbb) 0"
    unfolding copy_at_zeros by simp
  from b2 have "copy_at (cbb @ replicate (len - length cbb) 0) (length cbb) pbb = Inr b2"
    by (simp add: b1')
  then have b2': "b2 = (cbb @ pbb) @ replicate (len - length cbb - length pbb) 0"
    unfolding copy_at_zeros by simp
  from b3 have "copy_at ((cbb @ pbb) @ replicate (len - length cbb - length pbb) 0)
      (length (cbb @ pbb)) tbb = Inr b3"
    by (simp add: b2')
  then have b3': "b3 = ((cbb @ pbb) @ tbb) @
      replicate (len - length cbb - length pbb - length tbb) 0"
    unfolding copy_at_zeros by simp
  from opt have "marshal_optional (Optional f)
      (((cbb @ pbb) @ tbb) @ replicate (len - length cbb - length pbb - length tbb) 0)
      (length ((cbb @ pbb) @ tbb)) = Inr (b, n)"
    by (simp add: b3' add.assoc)
  from marshal_optional_zeros [OF this] obtain us bs where
    us: "Optional f = map Some us"
    and bs: "map TLV_MarshalBinary us = map Inr bs"
    and b: "b = ((cbb @ pbb) @ tbb) @ concat bs @
        replicate (len - length cbb - length pbb - length tbb - length (concat bs)) 0"
    by (elim exE conjE)
  from Frame_length_Inr [OF len c p] Optional_length_Some [OF bs]
  have "len = length cbb + length pbb + length tbb + length (concat bs) + 2"
    by (simp add: us lc lp lt)
  then have "replicate (len - length cbb - length pbb - length tbb - length (concat bs)) (0 :: byte)
      = [0, 0]"
    by (simp add: numeral_2_eq_2)
  with b have "b = cbb @ pbb @ tbb @ concat bs @ [0, 0]"
    by simp
  with us bs cbb pbb tbb show thesis
    by (rule that)
qed

subsection \<open>Decoding what the encoder wrote\<close>

lemma unmarshal_loop_encoded:
  "map TLV_MarshalBinary us = map Inr bs \<Longrightarrow>
   unmarshal_loop (pre @ concat bs) (length pre) acc = Inr (acc @ us)"
proof (induction us arbitrary: bs pre acc)
  case Nil
  then show ?case
    by (subst unmarshal_loop.simps) simp
next
  case (Cons u us)
  then obtain tb bs' where bs: "bs = tb # bs'" and tb: "TLV_MarshalBinary u = Inr tb"
    and rest: "map TLV_MarshalBinary us = map Inr bs'"
    by (cases bs) auto
  have len: "length tb = 2 + unat (Length u)"
    using TLV_MarshalBinary_length [OF tb] TLV_MarshalBinary_Inr(3) [OF tb] by simp
  have dec: "TLV_UnmarshalBinary new_TLV (tb @ concat bs') = (None, u)"
    using tb by (rule TLV_UnmarshalBinary_MarshalBinary)
  have ih: "unmarshal_loop ((pre @ tb) @ concat bs') (length (pre @ tb)) (acc @ [u]) =
      Inr ((acc @ [u]) @ us)"
    using rest by (rule Cons.IH)
  have "unmarshal_loop (pre @ concat bs) (length pre) acc =
      unmarshal_loop (pre @ concat bs) (length pre + (2 + unat (Length u))) (acc @ [u])"
    by (subst unmarshal_loop.simps) (simp add: bs dec len)
  also have "\<dots> = Inr ((acc @ [u]) @ us)"
    using ih by (simp add: bs len)
  finally show ?case by simp
qed

lemma ucast_seconds:
  assumes "0 \<le> sint (t :: int64)" and "sint t \<le> 65535 * 1000000000"
    and "sint t mod 1000000000 = 0"
  shows "ucast (ucast (int64_quo t Second) :: uint16) * Second = t"
proof -
  define q where "q = sint t div 1000000000"
  have q: "0 \<le> q" "q \<le> 65535" and t: "sint t = q * 1000000000"
    using assms by (auto simp: q_def)
  have "sint t sdiv 1000000000 = q"
    using assms(1) by (simp add: q_def signed_divide_int_def sgn_if)
  then have quo: "int64_quo t Second = word_of_int q"
    by (simp add: int64_quo_def Second_def)
  have "uint (word_of_int q :: int64) = q"
    using q by (simp add: uint_word_of_int take_bit_int_eq_self)
  then have down: "(ucast (word_of_int q :: int64) :: uint16) = word_of_int q"
    by (simp add: ucast_eq)
  have "uint (word_of_int q :: uint16) = q"
    using q by (simp add: uint_word_of_int take_bit_int_eq_self)
  then have up: "(ucast (word_of_int q :: uint16) :: int64) = word_of_int q"
    by (simp add: ucast_eq)
  have "ucast (ucast (int64_quo t Second) :: uint16) * Second =
      (word_of_int q :: int64) * word_of_int 1000000000"
    unfolding quo down up by (simp add: Second_def)
  also have "\<dots> = word_of_int (sint t)"
    by (simp add: t)
  finally show ?thesis by simp
qed

lemma TLV_MarshalBinary_End:
  "TLV_MarshalBinary \<lparr>Type = TLVTypeEnd, Length = 0, Value = []\<rparr> = Inr [0, 0]"
  by (simp add: TLV_MarshalBinary_def TLVTypeEnd_def TLVTypeMax_def
      TLVTypeOrganizationSpecific_def TLVLengthMax_def PutUint16_def)

lemma Frame_UnmarshalBinary_encoded:
  assumes c: "ChassisID f = Some c" and p: "PortID f = Some p"
    and enc: "Frame_MarshalBinary f = Inr b"
  shows "Frame_UnmarshalBinary f0 b =
     (None, f\<lparr>TTL := ucast (ucast (int64_quo (TTL f) Second) :: uint16) * Second\<rparr>)"
proof -
  from Frame_MarshalBinary_layout [OF enc c p]
  obtain us bs cbb pbb tbb where
    us: "Optional f = map Some us"
    and bs: "map TLV_MarshalBinary us = map Inr bs"
    and cbb: "TLV_MarshalBinary \<lparr>Type = TLVTypeChassisID,
       Length = of_nat (length (ChassisID.Subtype c # ChassisID.ID c)),
       Value = ChassisID.Subtype c # ChassisID.ID c\<rparr> = Inr cbb"
    and pbb: "TLV_MarshalBinary \<lparr>Type = TLVTypePortID,
       Length = of_nat (length (PortID.Subtype p # PortID.ID p)),
       Value = PortID.Subtype p # PortID.ID p\<rparr> = Inr pbb"
    and tbb: "TLV_MarshalBinary \<lparr>Type = TLVTypeTTL, Length = 2,
       Value = PutUint16 (ucast (int64_quo (TTL f) Second))\<rparr> = Inr tbb"
    and b: "b = cbb @ pbb @ tbb @ concat bs @ [0, 0]"
    by this
  define ct where "ct = \<lparr>Type = TLVTypeChassisID,
       Length = of_nat (length (ChassisID.Subtype c # ChassisID.ID c)),
       Value = ChassisID.Subtype c # ChassisID.ID c\<rparr>"
  define pt where "pt = \<lparr>Type = TLVTypePortID,
       Length = of_nat (length (PortID.Subtype p # PortID.ID p)),
       Value = PortID.Subtype p # PortID.ID p\<rparr>"
  define tt where "tt = \<lparr>Type = TLVTypeTTL, Length = 2,
       Value = PutUint16 (ucast (int64_quo (TTL f) Second))\<rparr>"
  define et where "et = \<lparr>Type = TLVTypeEnd, Length = 0, Value = []\<rparr>"
  have "map TLV_MarshalBinary (ct # pt # tt # us @ [et]) =
      map Inr (cbb # pbb # tbb # bs @ [[0, 0]])"
    using cbb pbb tbb bs TLV_MarshalBinary_End
    by (simp add: ct_def pt_def tt_def et_def)
  then have "unmarshal_loop ([] @ concat (cbb # pbb # tbb # bs @ [[0, 0]])) (length ([] :: byte list)) []
      = Inr ([] @ ct # pt # tt # us @ [et])"
    by (rule unmarshal_loop_encoded)
  then have loop: "unmarshal_loop b 0 [] = Inr (ct # pt # tt # us @ [et])"
    by (simp add: b)
  have last: "(ct # pt # tt # us @ [et]) ! (length (ct # pt # tt # us @ [et]) - 1) = et"
    by (simp add: nth_append)
  have mid: "drop 3 (take (length (ct # pt # tt # us @ [et]) - 1) (ct # pt # tt # us @ [et])) = us"
    by simp
  have cdec: "ChassisID_UnmarshalBinary new_ChassisID (Value ct) = (None, c)"
    by (simp add: ChassisID_UnmarshalBinary_def new_ChassisID_def ct_def)
  have pdec: "PortID_UnmarshalBinary new_PortID (Value pt) = (None, p)"
    by (simp add: PortID_UnmarshalBinary_def new_PortID_def pt_def)
  have tdec: "Uint16 (Value tt) = Some (ucast (int64_quo (TTL f) Second))"
    using Uint16_PutUint16 [of _ "[]"] by (simp add: tt_def)
  have ty: "Type ct = TLVTypeChassisID" "Type pt = TLVTypePortID" "Type tt = TLVTypeTTL"
    "Length tt = 2" "Type et = TLVTypeEnd" "Length et = 0"
    by (simp_all add: ct_def pt_def tt_def et_def)
  have "Frame_UnmarshalBinary f0 b =
     (None, f0\<lparr>ChassisID := Some c, PortID := Some p,
        TTL := ucast (ucast (int64_quo (TTL f) Second) :: uint16) * Second,
        Optional := map Some us\<rparr>)"
    unfolding Frame_UnmarshalBinary_def loop sum.case last mid
    by (simp add: cdec pdec tdec ty)
  also have "f0\<lparr>ChassisID := Some c, PortID := Some p,
        TTL := ucast (ucast (int64_quo (TTL f) Second) :: uint16) * Second,
        Optional := map Some us\<rparr> =
      f\<lparr>TTL := ucast (ucast (int64_quo (TTL f) Second) :: uint16) * Second\<rparr>"
    using c p us by (cases f, cases f0) simp
  finally show ?thesis .
qed

text \<open>
  Claim C1. Let \<open>f\<close> be a Frame with non-nil \<open>ChassisID\<close> and \<open>PortID\<close> and a TTL of
  a whole number of seconds between 0 and 65535, with any \<open>Optional\<close> list. If
  \<open>MarshalBinary\<close> succeeds with bytes \<open>b\<close>, then \<open>UnmarshalBinary\<close> of \<open>b\<close> into any
  receiver succeeds and leaves the receiver equal to \<open>f\<close>: the same identifiers, TTL
  and optional TLVs in order.
\<close>

theorem Frame_roundtrip:
  assumes "ChassisID f \<noteq> None" and "PortID f \<noteq> None"
    and "0 \<le> sint (TTL f)" and "sint (TTL f) \<le> 65535 * 1000000000"
    and "sint (TTL f) mod 1000000000 = 0"
    and "Frame_MarshalBinary f = Inr b"
  shows "Frame_UnmarshalBinary f0 b = (None, f)"
proof -
  from assms(1,2) obtain c p where c: "ChassisID f = Some c" and p: "PortID f = Some p"
    by auto
  have "ucast (ucast (int64_quo (TTL f) Second) :: uint16) * Second = TTL f"
    using assms(3-5) by (rule ucast_seconds)
  with Frame_UnmarshalBinary_encoded [OF c p assms(6), of f0]
  show ?thesis by simp
qed

theorem Frame_roundtrip_witness:
  "ChassisID eth_Frame \<noteq> None \<and> PortID eth_Frame \<noteq> None \<and>
   0 \<le> sint (TTL eth_Frame) \<and> sint (TTL eth_Frame) \<le> 65535 * 1000000000 \<and>
   sint (TTL eth_Frame) mod 1000000000 = 0 \<and>
   Frame_MarshalBinary eth_Frame = Inr eth_bytes \<and>
   Frame_UnmarshalBinary new_Frame eth_bytes = (None, eth_Frame)"
proof -
  have h1: "ChassisID eth_Frame \<noteq> None"
    and h2: "PortID eth_Frame \<noteq> None"
    and h3: "0 \<le> sint (TTL eth_Frame)"
    and h4: "sint (TTL eth_Frame) \<le> 65535 * 1000000000"
    and h5: "sint (TTL eth_Frame) mod 1000000000 = 0"
    by (simp_all add: eth_Frame_def Second_def)
  have h6: "Frame_MarshalBinary eth_Frame = Inr eth_bytes"
    by code_simp
  from h1 h2 h3 h4 h5 h6 Frame_roundtrip [OF h1 h2 h3 h4 h5 h6, of new_Frame]
  show ?thesis by (intro conjI)
qed

subsection \<open>The checks of the encoder\<close>

text \<open>
  Claim C6. \<open>Frame.MarshalBinary\<close> returns \<open>ErrInvalidFrame\<close>, and no bytes, when
  \<open>ChassisID\<close> is nil, when \<open>PortID\<close> is nil, or when the TTL divided by one second
  (truncating) is above 65535.
\<close>

theorem Frame_MarshalBinary_preconditions:
  "ChassisID f = None \<or> PortID f = None \<or> sint (int64_quo (TTL f) Second) > 65535 \<Longrightarrow>
   Frame_MarshalBinary f = Inl ErrInvalidFrame"
  by (auto simp: Frame_MarshalBinary_def Let_def MaxUint16_def split: option.splits)

theorem Frame_MarshalBinary_preconditions_witness:
  "sint (int64_quo (TTL \<lparr>ChassisID = Some new_ChassisID, PortID = Some new_PortID,
       TTL = 65536 * Second, Optional = []\<rparr>) Second) > 65535 \<and>
   Frame_MarshalBinary \<lparr>ChassisID = Some new_ChassisID, PortID = Some new_PortID,
       TTL = 65536 * Second, Optional = []\<rparr> = Inl ErrInvalidFrame"
proof -
  have h: "sint (int64_quo (TTL \<lparr>ChassisID = Some new_ChassisID, PortID = Some new_PortID,
       TTL = 65536 * Second, Optional = []\<rparr>) Second) > 65535"
    by (simp add: int64_quo_def Second_def)
  from h Frame_MarshalBinary_preconditions [of "\<lparr>ChassisID = Some new_ChassisID, PortID = Some new_PortID,
       TTL = 65536 * Second, Optional = []\<rparr>"]
  show ?thesis by simp
qed

subsection \<open>A negative TTL\<close>

lemma err_bind_Inl:
  "err_bind r k = Inl e \<longleftrightarrow> r = Inl e \<or> (\<exists>v. r = Inr v \<and> k v = Inl e)"
  by (cases r) (simp_all add: err_bind_def)

lemma TLV_MarshalBinary_not_ErrInvalidFrame:
  "TLV_MarshalBinary t \<noteq> Inl ErrInvalidFrame"
  by (simp add: TLV_MarshalBinary_def Let_def)

lemma copy_at_not_ErrInvalidFrame: "copy_at b n src \<noteq> Inl ErrInvalidFrame"
  by (simp add: copy_at_def)

lemma Optional_length_not_ErrInvalidFrame: "Optional_length ts n \<noteq> Inl ErrInvalidFrame"
  by (induction ts n rule: Optional_length.induct) simp_all

lemma Frame_length_not_ErrInvalidFrame: "Frame_length f \<noteq> Inl ErrInvalidFrame"
  using Optional_length_not_ErrInvalidFrame
  by (auto simp: Frame_length_def split: option.splits sum.splits)

lemma marshal_optional_not_ErrInvalidFrame:
  "marshal_optional ts b n \<noteq> Inl ErrInvalidFrame"
  by (induction ts b n rule: marshal_optional.induct)
     (simp_all add: err_bind_Inl TLV_MarshalBinary_not_ErrInvalidFrame
        copy_at_not_ErrInvalidFrame)

lemma Frame_MarshalBinary_ErrInvalidFrame:
  assumes "ChassisID f = Some c" and "PortID f = Some p"
    and "sint (int64_quo (TTL f) Second) \<le> MaxUint16"
  shows "Frame_MarshalBinary f \<noteq> Inl ErrInvalidFrame"
  using assms
  by (simp add: Frame_MarshalBinary_def Let_def err_bind_Inl
      ChassisID_MarshalBinary_def PortID_MarshalBinary_def
      TLV_MarshalBinary_not_ErrInvalidFrame copy_at_not_ErrInvalidFrame
      Frame_length_not_ErrInvalidFrame marshal_optional_not_ErrInvalidFrame
      split_paired_all)

lemma uint_ucast_sint:
  "uint (ucast (w :: int64) :: uint16) = sint w mod 2 ^ 16"
proof -
  have "uint (ucast w :: uint16) = take_bit 16 (uint w)"
    by (simp add: unsigned_ucast_eq)
  also have "\<dots> = take_bit 16 (take_bit 64 (sint w))"
    by (simp add: take_bit_signed_take_bit sint_uint)
  also have "\<dots> = take_bit 16 (sint w)"
    by simp
  finally show ?thesis by (simp add: take_bit_eq_mod)
qed

lemma TTL_TLV_bytes:
  assumes "TLV_MarshalBinary \<lparr>Type = TLVTypeTTL, Length = 2, Value = PutUint16 ttl\<rparr> = Inr tbb"
  shows "tbb = [0x06, 0x02, ucast (drop_bit 8 ttl), ucast ttl]"
  using TLV_MarshalBinary_Inr(4) [OF assms]
  by (simp add: PutUint16_def TLVTypeTTL_def)

lemma sint_ucast_uint16_eq: "sint (ucast (w :: uint16) :: int64) = uint w"
proof -
  have w: "0 \<le> uint w" "uint w < 65536"
    using uint_bounded [of w] by simp_all
  have "uint (ucast w :: int64) = uint w"
    using w by (simp add: unsigned_ucast_eq take_bit_int_eq_self)
  moreover have "sint (ucast w :: int64) = signed_take_bit 63 (uint (ucast w :: int64))"
    by (simp add: sint_uint)
  moreover have "signed_take_bit 63 (uint w) = uint w"
  proof (rule signed_take_bit_int_eq_self)
    have "- (2 ^ 63) \<le> (0 :: int)" by simp
    with w(1) show "- (2 ^ 63) \<le> uint w" by linarith
    have "(65536 :: int) \<le> 2 ^ 63" by simp
    with w(2) show "uint w < 2 ^ 63" by linarith
  qed
  ultimately show ?thesis by simp
qed

lemma sint_seconds:
  "sint (ucast (w :: uint16) * Second :: int64) = uint w * 1000000000"
proof -
  have w: "0 \<le> uint w" "uint w < 65536"
    using uint_bounded [of w] by simp_all
  have "sint (ucast w * Second :: int64) =
      signed_take_bit 63 (sint (ucast w :: int64) * sint Second)"
    by (simp add: sint_word_ariths)
  also have "\<dots> = signed_take_bit 63 (uint w * 1000000000)"
    by (simp add: sint_ucast_uint16_eq Second_def)
  also have "\<dots> = uint w * 1000000000"
  proof (rule signed_take_bit_int_eq_self)
    have "- (2 ^ 63) \<le> (0 :: int)" by simp
    with w(1) show "- (2 ^ 63) \<le> uint w * 1000000000" by linarith
    have "(65536 :: int) * 1000000000 \<le> 2 ^ 63" by simp
    with w(2) show "uint w * 1000000000 < 2 ^ 63" by linarith
  qed
  finally show ?thesis .
qed

lemma int64_quo_seconds:
  "int64_quo (ucast (w :: uint16) * Second) Second = ucast w"
proof -
  have "0 \<le> uint w"
    by simp
  then have "uint w = 0 \<or> 0 < uint w"
    by linarith
  then have "uint w * 1000000000 sdiv 1000000000 = uint w"
    by (auto simp add: signed_divide_int_def sgn_if)
  then have "sint (ucast w * Second :: int64) sdiv sint Second = uint w"
    unfolding sint_seconds by (simp add: Second_def)
  then show ?thesis
    unfolding int64_quo_def by simp
qed

lemma sint_ucast_uint16: "sint (ucast (w :: uint16) :: int64) \<le> MaxUint16"
  using uint_bounded [of w] by (simp add: sint_ucast_uint16_eq MaxUint16_def)

lemma ucast_ucast_uint16: "(ucast (ucast (w :: uint16) :: int64) :: uint16) = w"
  by (rule bit_word_eqI) (simp add: bit_simps)

lemma Frame_length_TTL: "Frame_length (f\<lparr>TTL := t\<rparr>) = Frame_length f"
  by (simp add: Frame_length_def cong: option.case_cong)

lemma Frame_MarshalBinary_TTL_wrap:
  assumes le: "sint (int64_quo (TTL f) Second) \<le> MaxUint16"
  shows "Frame_MarshalBinary f =
    Frame_MarshalBinary (f\<lparr>TTL := ucast (ucast (int64_quo (TTL f) Second) :: uint16) * Second\<rparr>)"
proof -
  define ttl :: uint16 where "ttl = ucast (int64_quo (TTL f) Second)"
  define f' where "f' = f\<lparr>TTL := ucast ttl * Second\<rparr>"
  have q: "int64_quo (TTL f') Second = ucast ttl"
    by (simp add: f'_def int64_quo_seconds)
  have 1: "\<not> sint (int64_quo (TTL f') Second) > MaxUint16"
    unfolding q using sint_ucast_uint16 [of ttl] by simp
  have 2: "\<not> sint (int64_quo (TTL f) Second) > MaxUint16"
    using le by simp
  have 3: "(ucast (int64_quo (TTL f') Second) :: uint16) = ucast (int64_quo (TTL f) Second)"
    unfolding q ucast_ucast_uint16 ttl_def ..
  have 4: "Frame_length f' = Frame_length f"
    by (simp add: f'_def Frame_length_TTL)
  have 5: "ChassisID f' = ChassisID f" "PortID f' = PortID f" "Optional f' = Optional f"
    by (simp_all add: f'_def)
  have "Frame_MarshalBinary f = Frame_MarshalBinary f'"
    unfolding Frame_MarshalBinary_def Let_def 3 4 5 if_not_P [OF 1] if_not_P [OF 2] ..
  then show ?thesis
    by (simp add: f'_def ttl_def)
qed

text \<open>
  Claim C9. For a Frame with both identifiers present whose TTL, truncated to whole
  seconds, is negative, \<open>MarshalBinary\<close> does not return \<open>ErrInvalidFrame\<close>: the
  frame is encoded exactly as the frame whose TTL is the low 16 bits of that seconds
  count, in seconds, and in the bytes of a successful encode the TTL TLV (after the
  chassis and port TLVs) is \<open>06 02\<close> followed by the seconds count modulo \<open>2^16\<close>,
  big-endian.
\<close>

theorem Frame_MarshalBinary_negative_TTL:
  assumes c: "ChassisID f = Some c" and p: "PortID f = Some p"
    and neg: "sint (int64_quo (TTL f) Second) < 0"
  shows "Frame_MarshalBinary f \<noteq> Inl ErrInvalidFrame \<and>
    Frame_MarshalBinary f =
      Frame_MarshalBinary
        (f\<lparr>TTL := ucast (ucast (int64_quo (TTL f) Second) :: uint16) * Second\<rparr>) \<and>
    (\<forall>b. Frame_MarshalBinary f = Inr b \<longrightarrow>
       (\<exists>ttl :: uint16. uint ttl = sint (int64_quo (TTL f) Second) mod 2 ^ 16 \<and>
          take 4 (drop (2 + 1 + length (ChassisID.ID c) + (2 + 1 + length (PortID.ID p))) b) =
            [0x06, 0x02, ucast (drop_bit 8 ttl), ucast ttl]))"
proof (intro conjI allI impI)
  from neg have le: "sint (int64_quo (TTL f) Second) \<le> MaxUint16"
    by (simp add: MaxUint16_def)
  from c p le show "Frame_MarshalBinary f \<noteq> Inl ErrInvalidFrame"
    by (rule Frame_MarshalBinary_ErrInvalidFrame)
  from le show "Frame_MarshalBinary f =
      Frame_MarshalBinary
        (f\<lparr>TTL := ucast (ucast (int64_quo (TTL f) Second) :: uint16) * Second\<rparr>)"
    by (rule Frame_MarshalBinary_TTL_wrap)
next
  fix b
  assume enc: "Frame_MarshalBinary f = Inr b"
  define ttl :: uint16 where "ttl = ucast (int64_quo (TTL f) Second)"
  from Frame_MarshalBinary_layout [OF enc c p]
  obtain us bs cbb pbb tbb where
    cbb: "TLV_MarshalBinary \<lparr>Type = TLVTypeChassisID,
       Length = of_nat (length (ChassisID.Subtype c # ChassisID.ID c)),
       Value = ChassisID.Subtype c # ChassisID.ID c\<rparr> = Inr cbb"
    and pbb: "TLV_MarshalBinary \<lparr>Type = TLVTypePortID,
       Length = of_nat (length (PortID.Subtype p # PortID.ID p)),
       Value = PortID.Subtype p # PortID.ID p\<rparr> = Inr pbb"
    and tbb: "TLV_MarshalBinary \<lparr>Type = TLVTypeTTL, Length = 2,
       Value = PutUint16 ttl\<rparr> = Inr tbb"
    and b: "b = cbb @ pbb @ tbb @ concat bs @ [0, 0]"
    unfolding ttl_def by this
  have lc: "length cbb = 2 + 1 + length (ChassisID.ID c)"
    using TLV_MarshalBinary_length [OF cbb] by simp
  have lp: "length pbb = 2 + 1 + length (PortID.ID p)"
    using TLV_MarshalBinary_length [OF pbb] by simp
  have t: "tbb = [0x06, 0x02, ucast (drop_bit 8 ttl), ucast ttl]"
    using tbb by (rule TTL_TLV_bytes)
  have "drop (2 + 1 + length (ChassisID.ID c) + (2 + 1 + length (PortID.ID p))) b =
      tbb @ concat bs @ [0, 0]"
    unfolding b lc [symmetric] lp [symmetric] by simp
  then have "take 4 (drop (2 + 1 + length (ChassisID.ID c) + (2 + 1 + length (PortID.ID p))) b) =
      [0x06, 0x02, ucast (drop_bit 8 ttl), ucast ttl]"
    by (simp add: t)
  moreover have "uint ttl = sint (int64_quo (TTL f) Second) mod 2 ^ 16"
    unfolding ttl_def by (rule uint_ucast_sint)
  ultimately show "\<exists>ttl :: uint16. uint ttl = sint (int64_quo (TTL f) Second) mod 2 ^ 16 \<and>
      take 4 (drop (2 + 1 + length (ChassisID.ID c) + (2 + 1 + length (PortID.ID p))) b) =
        [0x06, 0x02, ucast (drop_bit 8 ttl), ucast ttl]"
    by (intro exI [of _ ttl] conjI)
qed

theorem Frame_MarshalBinary_negative_TTL_witness:
  "ChassisID (eth_Frame\<lparr>TTL := - Second\<rparr>) =
     Some \<lparr>ChassisID.Subtype = 6, ChassisID.ID = [0x65, 0x74, 0x68, 0x30]\<rparr> \<and>
   PortID (eth_Frame\<lparr>TTL := - Second\<rparr>) =
     Some \<lparr>PortID.Subtype = 4, PortID.ID = [0x65, 0x74, 0x68, 0x31]\<rparr> \<and>
   sint (int64_quo (TTL (eth_Frame\<lparr>TTL := - Second\<rparr>)) Second) < 0 \<and>
   Frame_MarshalBinary (eth_Frame\<lparr>TTL := - Second\<rparr>) \<noteq> Inl ErrInvalidFrame \<and>
   Frame_MarshalBinary (eth_Frame\<lparr>TTL := - Second\<rparr>) =
     Frame_MarshalBinary (eth_Frame\<lparr>TTL := 65535 * Second\<rparr>) \<and>
   Frame_MarshalBinary (eth_Frame\<lparr>TTL := - Second\<rparr>) =
     Inr [0x02, 0x05, 6, 0x65, 0x74, 0x68, 0x30,
          0x04, 0x05, 4, 0x65, 0x74, 0x68, 0x31,
          0x06, 0x02, 0xff, 0xff,
          0x08, 0x01, 1,
          0x0a, 0x02, 1, 2,
          0x00, 0x00]"
proof -
  have h1: "ChassisID (eth_Frame\<lparr>TTL := - Second\<rparr>) =
     Some \<lparr>ChassisID.Subtype = 6, ChassisID.ID = [0x65, 0x74, 0x68, 0x30]\<rparr>"
    and h2: "PortID (eth_Frame\<lparr>TTL := - Second\<rparr>) =
     Some \<lparr>PortID.Subtype = 4, PortID.ID = [0x65, 0x74, 0x68, 0x31]\<rparr>"
    by (simp_all add: eth_Frame_def)
  have q: "int64_quo (TTL (eth_Frame\<lparr>TTL := - Second\<rparr>)) Second = - 1"
    by (simp add: int64_quo_def Second_def)
  have h3: "sint (int64_quo (TTL (eth_Frame\<lparr>TTL := - Second\<rparr>)) Second) < 0"
    unfolding q by simp
  have w: "(ucast (ucast (- 1 :: int64) :: uint16) :: int64) = 65535"
    by code_simp
  have e: "Frame_MarshalBinary (eth_Frame\<lparr>TTL := - Second\<rparr>) =
     Inr [0x02, 0x05, 6, 0x65, 0x74, 0x68, 0x30,
          0x04, 0x05, 4, 0x65, 0x74, 0x68, 0x31,
          0x06, 0x02, 0xff, 0xff,
          0x08, 0x01, 1,
          0x0a, 0x02, 1, 2,
          0x00, 0x00]"
    by code_simp
  note t = Frame_MarshalBinary_negative_TTL [OF h1 h2 h3]
  from t have r1: "Frame_MarshalBinary (eth_Frame\<lparr>TTL := - Second\<rparr>) \<noteq> Inl ErrInvalidFrame"
    by (rule conjunct1)
  from t have r2: "Frame_MarshalBinary (eth_Frame\<lparr>TTL := - Second\<rparr>) =
     Frame_MarshalBinary (eth_Frame\<lparr>TTL := 65535 * Second\<rparr>)"
    unfolding q w by simp
  from h1 h2 h3 r1 r2 e show ?thesis by (intro conjI)
qed

subsection \<open>The positional checks of the decoder\<close>

lemma TLV_UnmarshalBinary_None:
  assumes "TLV_UnmarshalBinary t0 b = (None, t)"
  shows "length (Value t) = unat (Length t)"
proof (cases b)
  case Nil
  with assms show ?thesis by (simp add: TLV_UnmarshalBinary_def)
next
  case (Cons b0 bs)
  show ?thesis
  proof (cases bs)
    case Nil
    with Cons assms show ?thesis by (simp add: TLV_UnmarshalBinary_def)
  next
    case (Cons b1 rest)
    with \<open>b = b0 # bs\<close> assms show ?thesis
      by (auto simp: TLV_UnmarshalBinary_Cons [OF refl] split: if_splits)
  qed
qed

lemma unmarshal_loop_Value_length:
  "unmarshal_loop b l acc = Inr tt \<Longrightarrow>
   (\<And>t. t \<in> set acc \<Longrightarrow> length (Value t) = unat (Length t)) \<Longrightarrow>
   t \<in> set tt \<Longrightarrow> length (Value t) = unat (Length t)"
proof (induction b l acc rule: unmarshal_loop.induct)
  case (1 b l acc)
  show ?case
  proof (cases "l \<le> length b \<and> 0 < length (drop l b)")
    case False
    with "1.prems" show ?thesis
      by (subst (asm) unmarshal_loop.simps) (auto split: if_splits)
  next
    case True
    obtain err u where dec: "TLV_UnmarshalBinary new_TLV (drop l b) = (err, u)"
      by (cases "TLV_UnmarshalBinary new_TLV (drop l b)")
    from "1.prems"(1) True dec have err: "err = None"
      and rest: "unmarshal_loop b (l + (2 + unat (Length u))) (acc @ [u]) = Inr tt"
      by (subst (asm) unmarshal_loop.simps; cases err; simp)+
    have u: "length (Value u) = unat (Length u)"
      using dec unfolding err by (rule TLV_UnmarshalBinary_None)
    have "\<not> length b < l" "0 < length (drop l b)"
      using True by simp_all
    from "1.IH" [OF this dec [symmetric, unfolded err] refl rest _ "1.prems"(3)]
    show ?thesis
      using u "1.prems"(2) by auto
  qed
qed

lemma ChassisID_UnmarshalBinary_Nil:
  "ChassisID_UnmarshalBinary new_ChassisID [] = (Some ErrUnexpectedEOF, new_ChassisID)"
  by (simp add: ChassisID_UnmarshalBinary_def)

lemma ChassisID_UnmarshalBinary_Cons:
  "v \<noteq> [] \<Longrightarrow> ChassisID_UnmarshalBinary new_ChassisID v =
     (None, \<lparr>ChassisID.Subtype = hd v, ChassisID.ID = tl v\<rparr>)"
  by (cases v) (simp_all add: ChassisID_UnmarshalBinary_def new_ChassisID_def)

lemma PortID_UnmarshalBinary_Nil:
  "PortID_UnmarshalBinary new_PortID [] = (Some ErrUnexpectedEOF, new_PortID)"
  by (simp add: PortID_UnmarshalBinary_def)

lemma PortID_UnmarshalBinary_Cons:
  "v \<noteq> [] \<Longrightarrow> PortID_UnmarshalBinary new_PortID v =
     (None, \<lparr>PortID.Subtype = hd v, PortID.ID = tl v\<rparr>)"
  by (cases v) (simp_all add: PortID_UnmarshalBinary_def new_PortID_def)

lemma Frame_UnmarshalBinary_positional:
  assumes loop: "unmarshal_loop b 0 [] = Inr tt" and len: "4 \<le> length tt"
  shows "Frame_UnmarshalBinary f b =
    (if Type (tt ! 0) \<noteq> TLVTypeChassisID then (Some ErrInvalidFrame, f)
     else if Value (tt ! 0) = []
       then (Some ErrUnexpectedEOF, f\<lparr>ChassisID := Some new_ChassisID\<rparr>)
     else if Type (tt ! 1) \<noteq> TLVTypePortID
       then (Some ErrInvalidFrame,
             f\<lparr>ChassisID := Some \<lparr>ChassisID.Subtype = hd (Value (tt ! 0)),
                                   ChassisID.ID = tl (Value (tt ! 0))\<rparr>\<rparr>)
     else if Value (tt ! 1) = []
       then (Some ErrUnexpectedEOF,
             f\<lparr>ChassisID := Some \<lparr>ChassisID.Subtype = hd (Value (tt ! 0)),
                                   ChassisID.ID = tl (Value (tt ! 0))\<rparr>,
               PortID := Some new_PortID\<rparr>)
     else if Type (tt ! 2) \<noteq> TLVTypeTTL \<or> Length (tt ! 2) \<noteq> 2
       then (Some ErrInvalidFrame,
             f\<lparr>ChassisID := Some \<lparr>ChassisID.Subtype = hd (Value (tt ! 0)),
                                   ChassisID.ID = tl (Value (tt ! 0))\<rparr>,
               PortID := Some \<lparr>PortID.Subtype = hd (Value (tt ! 1)),
                                 PortID.ID = tl (Value (tt ! 1))\<rparr>\<rparr>)
     else if Type (last tt) \<noteq> TLVTypeEnd \<or> Length (last tt) \<noteq> 0
       then (Some ErrInvalidFrame,
             f\<lparr>ChassisID := Some \<lparr>ChassisID.Subtype = hd (Value (tt ! 0)),
                                   ChassisID.ID = tl (Value (tt ! 0))\<rparr>,
               PortID := Some \<lparr>PortID.Subtype = hd (Value (tt ! 1)),
                                 PortID.ID = tl (Value (tt ! 1))\<rparr>,
               TTL := ucast (push_bit 8 (ucast (Value (tt ! 2) ! 0)) OR
                             ucast (Value (tt ! 2) ! 1) :: uint16) * Second\<rparr>)
     else (None,
             f\<lparr>ChassisID := Some \<lparr>ChassisID.Subtype = hd (Value (tt ! 0)),
                                   ChassisID.ID = tl (Value (tt ! 0))\<rparr>,
               PortID := Some \<lparr>PortID.Subtype = hd (Value (tt ! 1)),
                                 PortID.ID = tl (Value (tt ! 1))\<rparr>,
               TTL := ucast (push_bit 8 (ucast (Value (tt ! 2) ! 0)) OR
                             ucast (Value (tt ! 2) ! 1) :: uint16) * Second,
               Optional := map Some (drop 3 (butlast tt))\<rparr>))"
proof -
  have tt2: "tt ! 2 \<in> set tt"
    using len by simp
  have l2: "length (Value (tt ! 2)) = unat (Length (tt ! 2))"
    using loop _ tt2 by (rule unmarshal_loop_Value_length) simp
  have u16: "Length (tt ! 2) = 2 \<Longrightarrow>
    Uint16 (Value (tt ! 2)) =
      Some (push_bit 8 (ucast (Value (tt ! 2) ! 0)) OR ucast (Value (tt ! 2) ! 1))"
  proof -
    assume "Length (tt ! 2) = 2"
    with l2 have "length (Value (tt ! 2)) = 2" by simp
    then obtain x y where "Value (tt ! 2) = [x, y]"
      by (cases "Value (tt ! 2)" rule: Uint16.cases) simp_all
    then show ?thesis by (simp add: or.commute)
  qed
  have last: "tt ! (length tt - 1) = last tt"
    using len by (cases tt rule: rev_cases) (simp_all add: nth_append)
  have tk: "take (length tt - 1) tt = butlast tt"
    by (simp add: butlast_conv_take)
  show ?thesis
    unfolding Frame_UnmarshalBinary_def loop sum.case last tk
    using len
    by (simp add: ChassisID_UnmarshalBinary_Cons PortID_UnmarshalBinary_Cons
        ChassisID_UnmarshalBinary_Nil PortID_UnmarshalBinary_Nil u16)
qed

lemma Frame_UnmarshalBinary_short:
  assumes "unmarshal_loop b 0 [] = Inr tt" and "length tt < 4"
  shows "Frame_UnmarshalBinary f b = (Some ErrUnexpectedEOF, f)"
  using assms by (simp add: Frame_UnmarshalBinary_def)

text \<open>
  Claim C4, as stated, fails: a chassis-id unit with an empty value at position 0
  is reported as \<open>io.ErrUnexpectedEOF\<close> before position 1 is looked at, so the
  sequence chassis-id, ttl, port-id, end (all four mandatory kinds, reordered) is not
  rejected with \<open>ErrInvalidFrame\<close>.
\<close>

theorem Frame_UnmarshalBinary_reordered_EOF:
  "unmarshal_loop [2, 0, 6, 0, 4, 0, 0, 0] 0 [] =
     Inr [\<lparr>Type = TLVTypeChassisID, Length = 0, Value = []\<rparr>,
          \<lparr>Type = TLVTypeTTL, Length = 0, Value = []\<rparr>,
          \<lparr>Type = TLVTypePortID, Length = 0, Value = []\<rparr>,
          \<lparr>Type = TLVTypeEnd, Length = 0, Value = []\<rparr>] \<and>
   fst (Frame_UnmarshalBinary new_Frame [2, 0, 6, 0, 4, 0, 0, 0]) = Some ErrUnexpectedEOF \<and>
   fst (Frame_UnmarshalBinary new_Frame [2, 0, 6, 0, 4, 0, 0, 0]) \<noteq> Some ErrInvalidFrame"
  by code_simp

text \<open>
  Claim C4, amended. When the input splits into fewer than four TLV units, the decode
  fails with \<open>io.ErrUnexpectedEOF\<close>. When it splits into four or more units and it is
  not the case that unit 0 has kind chassis-id, unit 1 kind port-id, unit 2 kind ttl
  with length 2 and the last unit kind 0 with length 0, the decode fails: with
  \<open>io.ErrUnexpectedEOF\<close> when unit 0 is a chassis-id unit with an empty value, or
  unit 0 is a chassis-id unit and unit 1 a port-id unit with an empty value, and with
  \<open>ErrInvalidFrame\<close> otherwise. The checks are positional: a reordered sequence is
  always rejected.
\<close>

theorem Frame_UnmarshalBinary_validation:
  assumes "unmarshal_loop b 0 [] = Inr tt"
  shows "(length tt < 4 \<longrightarrow> fst (Frame_UnmarshalBinary f b) = Some ErrUnexpectedEOF) \<and>
    (4 \<le> length tt \<and>
     \<not> (Type (tt ! 0) = TLVTypeChassisID \<and> Type (tt ! 1) = TLVTypePortID \<and>
        Type (tt ! 2) = TLVTypeTTL \<and> Length (tt ! 2) = 2 \<and>
        Type (last tt) = TLVTypeEnd \<and> Length (last tt) = 0) \<longrightarrow>
     fst (Frame_UnmarshalBinary f b) =
       (if Type (tt ! 0) = TLVTypeChassisID \<and>
           (Value (tt ! 0) = [] \<or> Type (tt ! 1) = TLVTypePortID \<and> Value (tt ! 1) = [])
        then Some ErrUnexpectedEOF else Some ErrInvalidFrame))"
proof (intro conjI impI)
  assume "length tt < 4"
  with assms show "fst (Frame_UnmarshalBinary f b) = Some ErrUnexpectedEOF"
    by (simp add: Frame_UnmarshalBinary_short)
next
  assume a: "4 \<le> length tt \<and>
     \<not> (Type (tt ! 0) = TLVTypeChassisID \<and> Type (tt ! 1) = TLVTypePortID \<and>
        Type (tt ! 2) = TLVTypeTTL \<and> Length (tt ! 2) = 2 \<and>
        Type (last tt) = TLVTypeEnd \<and> Length (last tt) = 0)"
  then have len: "4 \<le> length tt" by simp
  show "fst (Frame_UnmarshalBinary f b) =
       (if Type (tt ! 0) = TLVTypeChassisID \<and>
           (Value (tt ! 0) = [] \<or> Type (tt ! 1) = TLVTypePortID \<and> Value (tt ! 1) = [])
        then Some ErrUnexpectedEOF else Some ErrInvalidFrame)"
    unfolding Frame_UnmarshalBinary_positional [OF assms len]
    using a by auto
qed


theorem Frame_UnmarshalBinary_validation_witness:
  "unmarshal_loop [2, 1, 0, 2, 0, 0, 0, 0, 0] 0 [] =
     Inr [\<lparr>Type = 1, Length = 1, Value = [0]\<rparr>, \<lparr>Type = 1, Length = 0, Value = []\<rparr>,
          \<lparr>Type = 0, Length = 0, Value = []\<rparr>, \<lparr>Type = 0, Length = 0, Value = []\<rparr>] \<and>
   fst (Frame_UnmarshalBinary new_Frame [2, 1, 0, 2, 0, 0, 0, 0, 0]) = Some ErrInvalidFrame \<and>
   unmarshal_loop [2, 1, 0, 0, 0] 0 [] =
     Inr [\<lparr>Type = 1, Length = 1, Value = [0]\<rparr>, \<lparr>Type = 0, Length = 0, Value = []\<rparr>] \<and>
   fst (Frame_UnmarshalBinary new_Frame [2, 1, 0, 0, 0]) = Some ErrUnexpectedEOF"
proof -
  have l1: "unmarshal_loop [2, 1, 0, 2, 0, 0, 0, 0, 0] 0 [] =
     Inr [\<lparr>Type = 1, Length = 1, Value = [0]\<rparr>, \<lparr>Type = 1, Length = 0, Value = []\<rparr>,
          \<lparr>Type = 0, Length = 0, Value = []\<rparr>, \<lparr>Type = 0, Length = 0, Value = []\<rparr>]"
    by code_simp
  have l2: "unmarshal_loop [2, 1, 0, 0, 0] 0 [] =
     Inr [\<lparr>Type = 1, Length = 1, Value = [0]\<rparr>, \<lparr>Type = 0, Length = 0, Value = []\<rparr>]"
    by code_simp
  have r1: "fst (Frame_UnmarshalBinary new_Frame [2, 1, 0, 2, 0, 0, 0, 0, 0]) = Some ErrInvalidFrame"
    using Frame_UnmarshalBinary_validation [OF l1, of new_Frame]
    by (simp add: TLVTypeChassisID_def TLVTypePortID_def)
  have r2: "fst (Frame_UnmarshalBinary new_Frame [2, 1, 0, 0, 0]) = Some ErrUnexpectedEOF"
    using Frame_UnmarshalBinary_validation [OF l2, of new_Frame]
    by simp
  from l1 r1 l2 r2 show ?thesis by (intro conjI)
qed

text \<open>
  Claim C7, as stated, fails: only the last unit is consumed as the terminator; a unit
  of kind 0 before it is kept in \<open>Optional\<close>.
\<close>

theorem Frame_UnmarshalBinary_keeps_inner_End:
  "Frame_UnmarshalBinary new_Frame [2, 1, 4, 4, 1, 3, 6, 2, 0, 120, 0, 0, 0, 0] =
     (None, \<lparr>ChassisID = Some \<lparr>ChassisID.Subtype = 4, ChassisID.ID = []\<rparr>,
             PortID = Some \<lparr>PortID.Subtype = 3, PortID.ID = []\<rparr>,
             TTL = 120 * Second,
             Optional = [Some \<lparr>Type = TLVTypeEnd, Length = 0, Value = []\<rparr>]\<rparr>)"
  by code_simp

text \<open>
  Claim C7, amended. When the decode succeeds, the input splits into at least four
  units, the last unit has kind 0 and length 0, and \<open>Optional\<close> is exactly the units
  after the third and before the last, in order: the final terminator is consumed and
  not retained.
\<close>

theorem Frame_UnmarshalBinary_Optional:
  assumes "Frame_UnmarshalBinary f b = (None, f')"
  shows "\<exists>tt. unmarshal_loop b 0 [] = Inr tt \<and> 4 \<le> length tt \<and>
     Type (last tt) = TLVTypeEnd \<and> Length (last tt) = 0 \<and>
     Optional f' = map Some (drop 3 (butlast tt))"
proof -
  from assms obtain tt where loop: "unmarshal_loop b 0 [] = Inr tt"
    by (cases "unmarshal_loop b 0 []") (simp_all add: Frame_UnmarshalBinary_def)
  have len: "4 \<le> length tt"
  proof (rule ccontr)
    assume "\<not> 4 \<le> length tt"
    then have "length tt < 4" by simp
    from Frame_UnmarshalBinary_short [OF loop this, of f] assms show False by simp
  qed
  from assms have last: "Type (last tt) = TLVTypeEnd" "Length (last tt) = 0"
    and opt: "Optional f' = map Some (drop 3 (butlast tt))"
    unfolding Frame_UnmarshalBinary_positional [OF loop len]
    by (auto split: if_splits)
  with loop len show ?thesis
    by (intro exI [of _ tt] conjI)
qed

theorem Frame_UnmarshalBinary_Optional_witness:
  "Frame_UnmarshalBinary new_Frame eth_bytes = (None, eth_Frame) \<and>
   (\<exists>tt. unmarshal_loop eth_bytes 0 [] = Inr tt \<and> 4 \<le> length tt \<and>
      Type (last tt) = TLVTypeEnd \<and> Length (last tt) = 0 \<and>
      Optional eth_Frame = map Some (drop 3 (butlast tt)))"
proof -
  have h: "Frame_UnmarshalBinary new_Frame eth_bytes = (None, eth_Frame)"
    by code_simp
  from h Frame_UnmarshalBinary_Optional [OF h] show ?thesis
    by (rule conjI)
qed

text \<open>
  Claim C10. The decode is not atomic: when the input splits into at least four units,
  unit 0 is a chassis-id unit with a non-empty value and unit 1 is not a port-id unit,
  \<open>UnmarshalBinary\<close> returns \<open>ErrInvalidFrame\<close> and the receiver's \<open>ChassisID\<close> has
  already been replaced by the decoded identifier.
\<close>

theorem Frame_UnmarshalBinary_not_atomic:
  assumes "unmarshal_loop b 0 [] = Inr tt" and "4 \<le> length tt"
    and "Type (tt ! 0) = TLVTypeChassisID" and "Value (tt ! 0) \<noteq> []"
    and "Type (tt ! 1) \<noteq> TLVTypePortID"
  shows "Frame_UnmarshalBinary f b =
    (Some ErrInvalidFrame,
     f\<lparr>ChassisID := Some \<lparr>ChassisID.Subtype = hd (Value (tt ! 0)),
                           ChassisID.ID = tl (Value (tt ! 0))\<rparr>\<rparr>)"
  unfolding Frame_UnmarshalBinary_positional [OF assms(1,2)]
  using assms(3-5) by simp


theorem Frame_UnmarshalBinary_not_atomic_witness:
  "unmarshal_loop [2, 2, 7, 9, 2, 0, 0, 0, 0, 0] 0 [] =
     Inr [\<lparr>Type = 1, Length = 2, Value = [7, 9]\<rparr>, \<lparr>Type = 1, Length = 0, Value = []\<rparr>,
          \<lparr>Type = 0, Length = 0, Value = []\<rparr>, \<lparr>Type = 0, Length = 0, Value = []\<rparr>] \<and>
   Frame_UnmarshalBinary new_Frame [2, 2, 7, 9, 2, 0, 0, 0, 0, 0] =
     (Some ErrInvalidFrame,
      new_Frame\<lparr>ChassisID := Some \<lparr>ChassisID.Subtype = 7, ChassisID.ID = [9]\<rparr>\<rparr>) \<and>
   ChassisID (snd (Frame_UnmarshalBinary new_Frame [2, 2, 7, 9, 2, 0, 0, 0, 0, 0])) \<noteq> ChassisID new_Frame"
proof -
  have l: "unmarshal_loop [2, 2, 7, 9, 2, 0, 0, 0, 0, 0] 0 [] =
     Inr [\<lparr>Type = 1, Length = 2, Value = [7, 9]\<rparr>, \<lparr>Type = 1, Length = 0, Value = []\<rparr>,
          \<lparr>Type = 0, Length = 0, Value = []\<rparr>, \<lparr>Type = 0, Length = 0, Value = []\<rparr>]"
    by code_simp
  have r: "Frame_UnmarshalBinary new_Frame [2, 2, 7, 9, 2, 0, 0, 0, 0, 0] =
     (Some ErrInvalidFrame,
      new_Frame\<lparr>ChassisID := Some \<lparr>ChassisID.Subtype = 7, ChassisID.ID = [9]\<rparr>\<rparr>)"
    using Frame_UnmarshalBinary_not_atomic [OF l, of new_Frame]
    by (simp add: TLVTypeChassisID_def TLVTypePortID_def)
  have "ChassisID (snd (Frame_UnmarshalBinary new_Frame [2, 2, 7, 9, 2, 0, 0, 0, 0, 0])) \<noteq> ChassisID new_Frame"
    unfolding r by (simp add: new_Frame_def)
  with l r show ?thesis by (intro conjI)
qed

end
